theory Spec2Isabelle
  imports Main
begin

section \<open>The EBI pipeline (ebi.py): data model\<close>

text \<open>
  The pipeline is a Python script. Its functions read and change three things outside
  themselves: the file system, the open metadata handle, and standard output. The model
  threads a record \<open>world\<close> through every function. A function that may raise returns
  a pair of a sum (\<open>Inl\<close> the exception) and the world it leaves behind, so that effects
  done before a raise stay visible.

  Not modelled: argument parsing (\<open>get_args\<close>; its results are parameters of \<open>main\<close>)
  and logging.
\<close>

datatype error =
    Exception string
  | TypeError
  | KeyError string
  | FileExistsError string
  | RunnerError string

text \<open>
  A value stored in a row of \<open>csv.DictReader\<close>: a field of the record, the \<open>restval\<close>
  (\<open>None\<close>) of a column the record is too short for, or the list of surplus fields
  stored under the \<open>restkey\<close> (\<open>None\<close>).
\<close>

datatype cell = Str string | NoneVal | Rest "string list"

text \<open>A Python dict in insertion order; the key \<open>None\<close> is the \<open>restkey\<close>.\<close>

type_synonym row = "(string option \<times> cell) list"

text \<open>An open text file: its identity in the store of streams, and its \<open>name\<close>.\<close>

record textio =
  fd :: nat
  name :: string

text \<open>
  \<open>reg_files\<close> and \<open>directories\<close> are the paths for which \<open>os.path.isfile\<close> and
  \<open>os.path.isdir\<close> hold. \<open>batches\<close> records every list of commands handed to the batch
  runner, \<open>stdout\<close> every printed line. \<open>streams\<close> maps an open handle to the records
  (as \<open>csv.reader\<close> tokenises them) it has not yet delivered.
\<close>

record world =
  reg_files :: "string set"
  directories :: "string set"
  batches :: "string list list"
  stdout :: "string list"
  streams :: "nat \<Rightarrow> string list list"

type_synonym 'a result = "(error + 'a) \<times> world"

text \<open>
  The batch runner \<open>parallelprocs.run\<close> is an external collaborator. It is a parameter:
  a function from the commands and the set of regular files to the files afterwards,
  with the exception it raises, if any.
\<close>

type_synonym runner = "string list \<Rightarrow> string set \<Rightarrow> error option \<times> string set"

section \<open>Library functions the script calls\<close>

definition newline :: char where
  "newline = CHR 0x0A"

definition dquote :: string where
  "dquote = [CHR 0x22]"

definition digit_char :: "nat \<Rightarrow> char" where
  "digit_char d = ''0123456789'' ! d"

fun str_nat :: "nat \<Rightarrow> string" where
  "str_nat n = (if n < 10 then [digit_char n] else str_nat (n div 10) @ [digit_char (n mod 10)])"

declare str_nat.simps [simp del]

text \<open>\<open>str(i)\<close> of a Python int.\<close>

definition str_int :: "int \<Rightarrow> string" where
  "str_int i = (if i < 0 then CHR ''-'' # str_nat (nat (- i)) else str_nat (nat i))"

text \<open>\<open>sep.join(xs)\<close>.\<close>

fun str_join :: "string \<Rightarrow> string list \<Rightarrow> string" where
  "str_join sep [] = []"
| "str_join sep [x] = x"
| "str_join sep (x # y # ys) = x @ sep @ str_join sep (y # ys)"

text \<open>\<open>s.endswith(suf)\<close>.\<close>

definition endswith :: "string \<Rightarrow> string \<Rightarrow> bool" where
  "endswith s suf = (length suf \<le> length s \<and> drop (length s - length suf) s = suf)"

text \<open>\<open>posixpath.join(a, b)\<close> and \<open>posixpath.basename(p)\<close>.\<close>

definition os_path_join :: "string \<Rightarrow> string \<Rightarrow> string" where
  "os_path_join a b =
     (if b \<noteq> [] \<and> hd b = CHR ''/'' then b
      else if a = [] \<or> last a = CHR ''/'' then a @ b
      else a @ ''/'' @ b)"

definition os_path_basename :: "string \<Rightarrow> string" where
  "os_path_basename p = rev (takeWhile (\<lambda>c. c \<noteq> CHR ''/'') (rev p))"

definition os_path_isfile :: "world \<Rightarrow> string \<Rightarrow> bool" where
  "os_path_isfile w p = (p \<in> reg_files w)"

definition os_path_isdir :: "world \<Rightarrow> string \<Rightarrow> bool" where
  "os_path_isdir w p = (p \<in> directories w)"

text \<open>
  \<open>os.makedirs(p)\<close> raises when the path exists. The parent of every directory the
  script makes is the data directory, which \<open>get_args\<close> has made sure exists.
\<close>

definition os_makedirs :: "string \<Rightarrow> world \<Rightarrow> unit result" where
  "os_makedirs p w =
     (if p \<in> reg_files w \<or> p \<in> directories w then (Inl (FileExistsError p), w)
      else (Inr (), w\<lparr>directories := insert p (directories w)\<rparr>))"

text \<open>\<open>print(s)\<close>.\<close>

definition py_print :: "string \<Rightarrow> world \<Rightarrow> world" where
  "py_print s w = w\<lparr>stdout := stdout w @ [s]\<rparr>"

text \<open>The format \<open>{i:3}\<close> of an int: right-aligned in a field at least 3 wide.\<close>

definition fmt3 :: "int \<Rightarrow> string" where
  "fmt3 i = replicate (3 - length (str_int i)) CHR '' '' @ str_int i"

text \<open>
  \<open>parallelprocs.run(cmds, halt=1, num_procs=8)\<close>: the batch is recorded, the runner
  changes the regular files and may raise.
\<close>

definition parallelprocs_run :: "runner \<Rightarrow> string list \<Rightarrow> world \<Rightarrow> unit result" where
  "parallelprocs_run run cmds w =
     (let (err, fs) = run cmds (reg_files w);
          w' = w\<lparr>reg_files := fs, batches := batches w @ [cmds]\<rparr>
      in case err of Some e \<Rightarrow> (Inl e, w') | None \<Rightarrow> (Inr (), w'))"

subsection \<open>csv.DictReader\<close>

text \<open>\<open>d[k] = v\<close>: an existing key keeps its place, a new key goes last.\<close>

fun dict_set :: "row \<Rightarrow> string option \<Rightarrow> cell \<Rightarrow> row" where
  "dict_set [] k v = [(k, v)]"
| "dict_set ((k', v') # d) k v = (if k' = k then (k, v) # d else (k', v') # dict_set d k v)"

text \<open>\<open>d[k]\<close>: \<open>None\<close> stands for the KeyError.\<close>

definition dict_get :: "row \<Rightarrow> string \<Rightarrow> cell option" where
  "dict_get d k = map_of d (Some k)"

text \<open>
  The body of \<open>DictReader.__next__\<close> for a non-empty record: \<open>dict(zip(fieldnames, row))\<close>,
  then the surplus fields under the restkey or the restval for the columns left over.
\<close>

definition dictreader_row :: "string list \<Rightarrow> string list \<Rightarrow> row" where
  "dictreader_row fieldnames r =
     (let d = fold (\<lambda>(k, v) d. dict_set d (Some k) (Str v)) (zip fieldnames r) [];
          lf = length fieldnames;
          lr = length r
      in if lf < lr then dict_set d None (Rest (drop lf r))
         else if lf > lr then fold (\<lambda>k d. dict_set d (Some k) NoneVal) (drop lr fieldnames) d
         else d)"

text \<open>Iterating the reader to exhaustion: empty records are skipped.\<close>

fun dictreader_rows :: "string list \<Rightarrow> string list list \<Rightarrow> row list" where
  "dictreader_rows fieldnames [] = []"
| "dictreader_rows fieldnames (r # rs) =
     (if r = [] then dictreader_rows fieldnames rs
      else dictreader_row fieldnames r # dictreader_rows fieldnames rs)"

subsection \<open>The regular expression of run\_qc\<close>

text \<open>
  \<open>re.match('(.+)\.f(?:ast)?q(?:\.gz)?$', basename)\<close>. The group \<open>(.+)\<close> is one or more
  characters other than a newline, taken greedily from the start of the string. What
  follows it is a word of \<open>\.f(?:ast)?q(?:\.gz)?\<close>, up to the end of the string or to a
  newline that ends the string (Python's \<open>$\<close>).
\<close>

definition re_group :: "string \<Rightarrow> bool" where
  "re_group s = (s \<noteq> [] \<and> newline \<notin> set s)"

definition re_tail :: "string \<Rightarrow> bool" where
  "re_tail s =
     (s \<in> set (concat (map (\<lambda>a. concat (map (\<lambda>g. map (\<lambda>e. ''.f'' @ a @ ''q'' @ g @ e)
                 [ [], [newline] ]) [ [], ''.gz''])) [ [], ''ast''])))"

text \<open>Backtracking from the longest group to the shortest.\<close>

fun re_match_from :: "nat \<Rightarrow> string \<Rightarrow> string option" where
  "re_match_from 0 s = None"
| "re_match_from (Suc n) s =
     (if re_group (take (Suc n) s) \<and> re_tail (drop (Suc n) s) then Some (take (Suc n) s)
      else re_match_from n s)"

text \<open>The value of \<open>match.group(1)\<close>, or \<open>None\<close> without a match.\<close>

definition re_match_group1 :: "string \<Rightarrow> string option" where
  "re_match_group1 s = re_match_from (length s) s"

section \<open>The functions of ebi.py\<close>

subsection \<open>find\_meta\<close>

text \<open>
  \<open>reader.fieldnames\<close> takes the first record of the stream and is \<open>None\<close> when there is
  none; \<open>'experiment_id' in None\<close> raises a TypeError. The filter then drains the reader.
\<close>

definition find_meta :: "int \<Rightarrow> textio \<Rightarrow> world \<Rightarrow> row list result" where
  "find_meta exp_id fh w =
     (case streams w (fd fh) of
        [] \<Rightarrow> (Inl TypeError, w)
      | fieldnames # rest \<Rightarrow>
          if ''experiment_id'' \<notin> set fieldnames
          then (Inl (Exception (dquote @ name fh @ dquote @ '' missing '' @ dquote
                                 @ ''experiment_id'' @ dquote @ '' field'')),
                w\<lparr>streams := (streams w)(fd fh := rest)\<rparr>)
          else
            let w' = w\<lparr>streams := (streams w)(fd fh := [])\<rparr>;
                meta = filter (\<lambda>r. dict_get r ''experiment_id'' = Some (Str (str_int exp_id)))
                         (dictreader_rows fieldnames rest)
            in if meta = []
               then (Inl (Exception (''experiment_id '' @ dquote @ str_int exp_id @ dquote
                                      @ '' not found'')), w')
               else (Inr meta, w'))"

subsection \<open>get\_files\<close>

text \<open>The loop over \<open>files\<close>, with the lists \<open>expected\<close> and \<open>todo\<close> it appends to.\<close>

fun get_files_loop ::
  "string \<Rightarrow> world \<Rightarrow> string list \<Rightarrow> string list \<times> string list \<Rightarrow> string list \<times> string list"
where
  "get_files_loop raw_dir w [] (expected, todo) = (expected, todo)"
| "get_files_loop raw_dir w (file # files) (expected, todo) =
     (let path = os_path_join raw_dir (os_path_basename file)
      in if path \<in> set expected then get_files_loop raw_dir w files (expected, todo)
         else if os_path_isfile w path
         then get_files_loop raw_dir w files (expected @ [path], todo)
         else get_files_loop raw_dir w files
                (expected @ [path], todo @ [''iget -f '' @ file @ '' '' @ path]))"

text \<open>Lines 119 to 140: the directory, the loop and the batch.\<close>

definition get_files_batch :: "runner \<Rightarrow> string list \<Rightarrow> string \<Rightarrow> world \<Rightarrow> string list result" where
  "get_files_batch run files data_dir w =
     (let raw_dir = os_path_join data_dir ''raw''
      in case (if \<not> os_path_isdir w raw_dir then os_makedirs raw_dir w else (Inr (), w)) of
           (Inl e, w1) \<Rightarrow> (Inl e, w1)
         | (Inr u, w1) \<Rightarrow>
             let (expected, todo) = get_files_loop raw_dir w1 files ([], [])
             in case (if todo \<noteq> [] then parallelprocs_run run todo w1 else (Inr (), w1)) of
                  (Inl e, w2) \<Rightarrow> (Inl e, w2)
                | (Inr u, w2) \<Rightarrow> (Inr expected, w2))"

text \<open>Lines 142 to 146 after them: the check that every expected file is there.\<close>

definition get_files :: "runner \<Rightarrow> string list \<Rightarrow> string \<Rightarrow> world \<Rightarrow> string list result" where
  "get_files run files data_dir w =
     (case get_files_batch run files data_dir w of
        (Inl e, w2) \<Rightarrow> (Inl e, w2)
      | (Inr expected, w2) \<Rightarrow>
          let missing = filter (\<lambda>f. \<not> os_path_isfile w2 f) expected
          in if missing \<noteq> []
             then (Inl (Exception (''Failed to download '' @ str_join '', '' missing)), w2)
             else (Inr expected, w2))"

subsection \<open>run\_qc\<close>

text \<open>\<open>tmpl.format(source, qc_file)\<close>.\<close>

definition tmpl_format :: "string \<Rightarrow> string \<Rightarrow> string" where
  "tmpl_format source qc_file =
     source @ '' | fastq_quality_filter -q 20 -p 80 -Q 33 ''
            @ ''| fastx_clipper -l 80 | fastx_collapser > '' @ qc_file"

text \<open>Lines 165 to 167: the group of the match, or the basename as it is.\<close>

definition qc_stem :: "string \<Rightarrow> string" where
  "qc_stem basename = (case re_match_group1 basename of Some g \<Rightarrow> g | None \<Rightarrow> basename)"

fun run_qc_loop ::
  "string \<Rightarrow> world \<Rightarrow> string list \<Rightarrow> string list \<times> string list \<Rightarrow> string list \<times> string list"
where
  "run_qc_loop qc_dir w [] (expected, todo) = (expected, todo)"
| "run_qc_loop qc_dir w (file # files) (expected, todo) =
     (let basename = os_path_basename file;
          gzipped = endswith basename ''.gz'';
          qc_file = os_path_join qc_dir (qc_stem basename @ ''.fa'')
      in if os_path_isfile w qc_file
         then run_qc_loop qc_dir w files (expected @ [qc_file], todo)
         else run_qc_loop qc_dir w files
                (expected @ [qc_file],
                 todo @ [tmpl_format (if gzipped then ''gunzip -c '' @ file else ''cat '' @ file)
                           qc_file]))"

text \<open>Lines 153 to 182.\<close>

definition run_qc_batch :: "runner \<Rightarrow> string list \<Rightarrow> string \<Rightarrow> world \<Rightarrow> string list result" where
  "run_qc_batch run files data_dir w =
     (let qc_dir = os_path_join data_dir ''qc''
      in case (if \<not> os_path_isdir w qc_dir then os_makedirs qc_dir w else (Inr (), w)) of
           (Inl e, w1) \<Rightarrow> (Inl e, w1)
         | (Inr u, w1) \<Rightarrow>
             let (expected, todo) = run_qc_loop qc_dir w1 files ([], [])
             in case (if todo \<noteq> [] then parallelprocs_run run todo w1 else (Inr (), w1)) of
                  (Inl e, w2) \<Rightarrow> (Inl e, w2)
                | (Inr u, w2) \<Rightarrow> (Inr expected, w2))"

text \<open>Lines 184 to 188.\<close>

definition run_qc :: "runner \<Rightarrow> string list \<Rightarrow> string \<Rightarrow> world \<Rightarrow> string list result" where
  "run_qc run files data_dir w =
     (case run_qc_batch run files data_dir w of
        (Inl e, w2) \<Rightarrow> (Inl e, w2)
      | (Inr expected, w2) \<Rightarrow>
          let missing = filter (\<lambda>f. \<not> os_path_isfile w2 f) expected
          in if missing \<noteq> []
             then (Inl (Exception (''Failed to download '' @ str_join '', '' missing)), w2)
             else (Inr expected, w2))"

subsection \<open>process and main\<close>

text \<open>\<open>list(map(lambda m: m['url'], meta))\<close>: the first row without the key raises.\<close>

fun url_column :: "row list \<Rightarrow> error + cell list" where
  "url_column [] = Inr []"
| "url_column (m # ms) =
     (case dict_get m ''url'' of
        None \<Rightarrow> Inl (KeyError ''url'')
      | Some v \<Rightarrow> (case url_column ms of Inl e \<Rightarrow> Inl e | Inr vs \<Rightarrow> Inr (v # vs)))"

fun is_Str :: "cell \<Rightarrow> bool" where
  "is_Str (Str s) = True"
| "is_Str c = False"

fun the_Str :: "cell \<Rightarrow> string" where
  "the_Str (Str s) = s"
| "the_Str c = []"

text \<open>
  A row shorter than the header has \<open>None\<close> for its url. \<open>get_files\<close> then raises a
  TypeError in \<open>os.path.basename\<close>, inside its loop: after the raw directory is made and
  before any command is queued.
\<close>

definition process :: "runner \<Rightarrow> int \<Rightarrow> textio \<Rightarrow> string \<Rightarrow> world \<Rightarrow> unit result" where
  "process run exp_id fh data_dir w =
     (case find_meta exp_id fh w of
        (Inl e, w1) \<Rightarrow> (Inl e, w1)
      | (Inr meta, w1) \<Rightarrow>
          (case url_column meta of
             Inl e \<Rightarrow> (Inl e, w1)
           | Inr urls \<Rightarrow>
               if list_all is_Str urls
               then (case get_files run (map the_Str urls) data_dir w1 of
                       (Inl e, w2) \<Rightarrow> (Inl e, w2)
                     | (Inr local, w2) \<Rightarrow>
                         (case run_qc run local data_dir w2 of
                            (Inl e, w3) \<Rightarrow> (Inl e, w3)
                          | (Inr qc, w3) \<Rightarrow> (Inr (), w3)))
               else (let raw_dir = os_path_join data_dir ''raw''
                     in case (if \<not> os_path_isdir w1 raw_dir then os_makedirs raw_dir w1
                              else (Inr (), w1)) of
                          (Inl e, w2) \<Rightarrow> (Inl e, w2)
                        | (Inr u, w2) \<Rightarrow> (Inl TypeError, w2))))"

text \<open>The loop of \<open>main\<close> over \<open>enumerate(args.experiment_id, start=1)\<close>.\<close>

fun main_loop ::
  "runner \<Rightarrow> textio \<Rightarrow> string \<Rightarrow> int \<Rightarrow> int list \<Rightarrow> world \<Rightarrow> unit result"
where
  "main_loop run fh data_dir i [] w = (Inr (), w)"
| "main_loop run fh data_dir i (exp_id # ids) w =
     (case process run exp_id fh data_dir (py_print (fmt3 i @ '': '' @ str_int exp_id) w) of
        (Inl e, w1) \<Rightarrow> (Inl e, w1)
      | (Inr u, w1) \<Rightarrow> main_loop run fh data_dir (i + 1) ids w1)"

text \<open>
  \<open>main\<close>, with the parsed arguments \<open>args.experiment_id\<close>, \<open>args.metadata\<close> and
  \<open>args.data_dir\<close> as parameters.
\<close>

definition main :: "runner \<Rightarrow> int list \<Rightarrow> textio \<Rightarrow> string \<Rightarrow> world \<Rightarrow> unit result" where
  "main run experiment_id metadata data_dir w =
     (case main_loop run metadata data_dir 1 experiment_id w of
        (Inl e, w1) \<Rightarrow> (Inl e, w1)
      | (Inr u, w1) \<Rightarrow> (Inr (), py_print ''Done.'' w1))"

section \<open>A concrete run\<close>

text \<open>
  A metadata file \<open>meta.csv\<close> with the header \<open>experiment_id,url\<close> and three rows, an
  empty data directory \<open>/d\<close>, and a batch runner whose every command succeeds and leaves
  its target (the last word of the command) behind as a regular file.
\<close>

definition ex_meta :: textio where
  "ex_meta = \<lparr>fd = 0, name = ''meta.csv''\<rparr>"

definition ex_records :: "string list list" where
  "ex_records =
     [ [''experiment_id'', ''url''],
      [''1'', ''ftp://h/a.fastq.gz''],
      [''2'', ''ftp://h/b.fq''],
      [''01'', ''ftp://h/c.fq''] ]"

definition ex_world :: world where
  "ex_world =
     \<lparr>reg_files = {}, directories = {''/d''}, batches = [], stdout = [],
      streams = (\<lambda>n. if n = 0 then ex_records else [])\<rparr>"

definition cmd_target :: "string \<Rightarrow> string" where
  "cmd_target c = rev (takeWhile (\<lambda>x. x \<noteq> CHR '' '') (rev c))"

definition ex_runner :: runner where
  "ex_runner cmds fs = (None, fs \<union> set (map cmd_target cmds))"

text \<open>A runner that reports success and creates nothing.\<close>

definition idle_runner :: runner where
  "idle_runner cmds fs = (None, fs)"



section \<open>Notions the properties are stated with\<close>

text \<open>A list without its repetitions: every element stays at its first occurrence.\<close>

definition dedup_first :: "'a list \<Rightarrow> 'a list" where
  "dedup_first xs = rev (remdups (rev xs))"

text \<open>
  The elements of a list whose key is neither in \<open>seen\<close> nor the key of an earlier
  element of the list.
\<close>

fun first_by :: "('a \<Rightarrow> 'b) \<Rightarrow> 'b set \<Rightarrow> 'a list \<Rightarrow> 'a list" where
  "first_by key seen [] = []"
| "first_by key seen (x # xs) =
     (if key x \<in> seen then first_by key seen xs
      else x # first_by key (insert (key x) seen) xs)"

text \<open>The destination of a url under the raw directory, and of a file under the qc directory.\<close>

definition raw_dest :: "string \<Rightarrow> string \<Rightarrow> string" where
  "raw_dest data_dir u = os_path_join (os_path_join data_dir ''raw'') (os_path_basename u)"

definition qc_dest :: "string \<Rightarrow> string \<Rightarrow> string" where
  "qc_dest data_dir file =
     os_path_join (os_path_join data_dir ''qc'') (qc_stem (os_path_basename file) @ ''.fa'')"

text \<open>
  The stem as the specification words it: the basename without its suffix \<open>.fq\<close>,
  \<open>.fastq\<close>, \<open>.fq.gz\<close> or \<open>.fastq.gz\<close> (\<open>.f\<close>, then \<open>ast\<close> or nothing, then \<open>q\<close>, then
  \<open>.gz\<close> or nothing) when one or more characters come before that suffix, and the
  basename as it is otherwise.
\<close>

definition spec_suffixes :: "string list" where
  "spec_suffixes = [''.fq'', ''.fastq'', ''.fq.gz'', ''.fastq.gz'']"

definition spec_stem :: "string \<Rightarrow> string" where
  "spec_stem basename =
     (case filter (\<lambda>suf. endswith basename suf \<and> length suf < length basename) spec_suffixes of
        [] \<Rightarrow> basename
      | suf # sufs \<Rightarrow> take (length basename - length suf) basename)"

text \<open>
  A place to cut a basename: behind one or more characters and before one of these
  suffixes, which then ends the basename.
\<close>

definition stem_cut :: "string \<Rightarrow> nat \<Rightarrow> bool" where
  "stem_cut b k = (0 < k \<and> k \<le> length b \<and> drop k b \<in> set spec_suffixes)"

section \<open>Facts about the library functions\<close>

lemma os_path_basename_no_slash: "CHR ''/'' \<notin> set (os_path_basename p)"
proof -
  have "\<forall>c \<in> set (takeWhile (\<lambda>c. c \<noteq> CHR ''/'') (rev p)). c \<noteq> CHR ''/''"
    using set_takeWhileD by fastforce
  then show ?thesis by (auto simp: os_path_basename_def)
qed

lemma dictreader_rows_eq:
  "dictreader_rows fieldnames rs = map (dictreader_row fieldnames) (filter (\<lambda>r. r \<noteq> []) rs)"
  by (induction rs) simp_all

lemma map_of_dict_set: "map_of (dict_set d k v) = (map_of d)(k \<mapsto> v)"
  by (induction d k v rule: dict_set.induct) auto

lemma dict_get_dict_set:
  "dict_get (dict_set d k v) k' = (if k = Some k' then Some v else dict_get d k')"
  by (auto simp: dict_get_def map_of_dict_set)

text \<open>
  Under a header without repeated names, the value a row has for a column is the field
  of the record in that column, or the restval when the record is too short.
\<close>

lemma map_of_fold_fields:
  "map_of (fold (\<lambda>(k, v) d. dict_set d (Some k) (Str v)) kvs d) (Some k) =
     (case map_of (rev kvs) k of Some v \<Rightarrow> Some (Str v) | None \<Rightarrow> map_of d (Some k))"
proof (induction kvs arbitrary: d)
  case Nil
  show ?case by simp
next
  case (Cons kv kvs)
  obtain k' v' where kv: "kv = (k', v')" by (cases kv)
  show ?case
    by (simp add: kv Cons.IH map_of_dict_set map_add_def split: option.splits)
qed

lemma map_of_fold_restval:
  "map_of (fold (\<lambda>k d. dict_set d (Some k) NoneVal) ks d) (Some k) =
     (if k \<in> set ks then Some NoneVal else map_of d (Some k))"
  by (induction ks arbitrary: d) (auto simp: map_of_dict_set)

lemma map_of_rev_zip_nth:
  assumes "distinct xs" "i < length xs" "i < length ys"
  shows "map_of (rev (zip xs ys)) (xs ! i) = Some (ys ! i)"
proof -
  have "map fst (zip xs ys) = take (min (length xs) (length ys)) xs"
    by (simp add: map_fst_zip_take)
  with assms(1) have "distinct (map fst (rev (zip xs ys)))"
    by (simp add: rev_map [symmetric])
  moreover from assms(2,3) have "(xs ! i, ys ! i) \<in> set (rev (zip xs ys))"
    by (auto simp: set_zip)
  ultimately show ?thesis by simp
qed

lemma map_of_rev_zip_none:
  assumes "distinct xs" "i < length xs" "length ys \<le> i"
  shows "map_of (rev (zip xs ys)) (xs ! i) = None"
proof -
  have "xs ! i \<notin> fst ` set (zip xs ys)"
  proof
    assume "xs ! i \<in> fst ` set (zip xs ys)"
    then obtain j where "j < length xs" "j < length ys" "xs ! j = xs ! i"
      by (auto simp: set_zip)
    with assms show False
      by (auto simp: nth_eq_iff_index_eq)
  qed
  then show ?thesis
    by (simp add: map_of_eq_None_iff)
qed

lemma dictreader_row_field:
  assumes "distinct fieldnames" "i < length fieldnames"
  shows "dict_get (dictreader_row fieldnames r) (fieldnames ! i) =
           Some (if i < length r then Str (r ! i) else NoneVal)"
proof (cases "i < length r")
  case True
  have "fieldnames ! i \<notin> set (drop (length r) fieldnames)"
  proof
    assume "fieldnames ! i \<in> set (drop (length r) fieldnames)"
    then obtain j where "j < length fieldnames - length r" "fieldnames ! (length r + j) = fieldnames ! i"
      by (auto simp: in_set_conv_nth)
    with assms True show False
      by (auto simp: nth_eq_iff_index_eq)
  qed
  with True assms show ?thesis
    by (simp add: dictreader_row_def dict_get_def Let_def map_of_dict_set map_of_fold_fields
        map_of_fold_restval map_of_rev_zip_nth)
next
  case False
  then have n: "map_of (rev (zip fieldnames r)) (fieldnames ! i) = None"
    using assms by (simp add: map_of_rev_zip_none)
  from False assms have "fieldnames ! i \<in> set (drop (length r) fieldnames)"
    by (auto simp: in_set_conv_nth intro!: exI [of _ "i - length r"])
  with False assms n show ?thesis
    by (simp add: dictreader_row_def dict_get_def Let_def map_of_fold_fields map_of_fold_restval)
qed

text \<open>
  A row has every name of the header as a key, so \<open>r['experiment_id']\<close> in the filter
  of \<open>find_meta\<close> raises no KeyError once the header has passed the test.
\<close>

lemma dictreader_row_has_key:
  assumes "k \<in> set fieldnames"
  shows "dict_get (dictreader_row fieldnames r) k \<noteq> None"
proof (cases "k \<in> set (take (length r) fieldnames)")
  case True
  have "fst ` set (rev (zip fieldnames r)) = set (take (length r) fieldnames)"
  proof -
    have "map fst (zip fieldnames r) = take (min (length fieldnames) (length r)) fieldnames"
      by (simp add: map_fst_zip_take)
    then have "set (map fst (zip fieldnames r)) = set (take (length r) fieldnames)"
      by (simp add: min_def)
    then show ?thesis by simp
  qed
  with True have "map_of (rev (zip fieldnames r)) k \<noteq> None"
    by (simp add: map_of_eq_None_iff)
  then show ?thesis
    by (auto simp: dictreader_row_def dict_get_def Let_def map_of_dict_set map_of_fold_fields
        map_of_fold_restval)
next
  case False
  with assms have d: "k \<in> set (drop (length r) fieldnames)"
    by (metis Un_iff append_take_drop_id set_append)
  then have "length r < length fieldnames"
    by (cases "length r < length fieldnames") auto
  with d show ?thesis
    by (simp add: dictreader_row_def dict_get_def Let_def map_of_fold_fields map_of_fold_restval
        split: option.splits)
qed

section \<open>The effects on the metadata handle\<close>








section \<open>Metadata lookup\<close>




text \<open>
  On a stream that has a header record, \<open>find_meta\<close> has three outcomes: the header
  lacks the column, no row matches, or the matching rows are returned.
\<close>

lemma find_meta_with_header:
  assumes "streams w (fd fh) = fieldnames # rest"
  shows "fst (find_meta exp_id fh w) =
           (if ''experiment_id'' \<notin> set fieldnames
            then Inl (Exception (dquote @ name fh @ dquote @ '' missing '' @ dquote
                                  @ ''experiment_id'' @ dquote @ '' field''))
            else if filter (\<lambda>r. dict_get r ''experiment_id'' = Some (Str (str_int exp_id)))
                      (dictreader_rows fieldnames rest) = []
            then Inl (Exception (''experiment_id '' @ dquote @ str_int exp_id @ dquote
                                  @ '' not found''))
            else Inr (filter (\<lambda>r. dict_get r ''experiment_id'' = Some (Str (str_int exp_id)))
                        (dictreader_rows fieldnames rest)))"
  using assms by (simp add: find_meta_def Let_def)

text \<open>
  Claim C2. On a stream whose header has the column \<open>experiment_id\<close> and in which at
  least one row matches, \<open>find_meta\<close> returns the rows of the reader, in the order of
  the source, whose \<open>experiment_id\<close> is the string \<open>str(exp_id)\<close>, and no other row. The
  stored field is compared as a string.
\<close>

theorem find_meta_rows:
  assumes "streams w (fd fh) = fieldnames # rest"
    and "''experiment_id'' \<in> set fieldnames"
    and "list_ex (\<lambda>r. dict_get r ''experiment_id'' = Some (Str (str_int exp_id)))
           (map (dictreader_row fieldnames) (filter (\<lambda>r. r \<noteq> []) rest))"
  shows "fst (find_meta exp_id fh w) =
           Inr (filter (\<lambda>r. dict_get r ''experiment_id'' = Some (Str (str_int exp_id)))
                  (map (dictreader_row fieldnames) (filter (\<lambda>r. r \<noteq> []) rest)))"
proof -
  let ?P = "\<lambda>r. dict_get r ''experiment_id'' = Some (Str (str_int exp_id))"
  let ?rows = "map (dictreader_row fieldnames) (filter (\<lambda>r. r \<noteq> []) rest)"
  from assms(3) have "filter ?P ?rows \<noteq> []"
    by (simp add: list_ex_iff filter_empty_conv)
  with assms(1,2) show ?thesis
    by (simp add: find_meta_def dictreader_rows_eq Let_def)
qed

text \<open>
  In the concrete run the id 1 selects the row \<open>1,ftp://h/a.fastq.gz\<close> and not the row
  whose field is \<open>01\<close>.
\<close>

theorem find_meta_rows_witness:
  "fst (find_meta 1 ex_meta ex_world) =
     Inr [ [(Some ''experiment_id'', Str ''1''), (Some ''url'', Str ''ftp://h/a.fastq.gz'')] ]"
proof -
  have s: "streams ex_world (fd ex_meta) = [''experiment_id'', ''url''] # tl ex_records"
    by (simp add: ex_world_def ex_meta_def ex_records_def)
  have m: "''experiment_id'' \<in> set [''experiment_id'', ''url'']" by simp
  have e: "list_ex (\<lambda>r. dict_get r ''experiment_id'' = Some (Str (str_int 1)))
             (map (dictreader_row [''experiment_id'', ''url''])
                (filter (\<lambda>r. r \<noteq> []) (tl ex_records)))"
    by (simp add: ex_records_def dictreader_row_def dict_get_def str_int_def str_nat.simps
        digit_char_def)
  show ?thesis
    using find_meta_rows [OF s m e]
    by (simp add: ex_records_def dictreader_row_def dict_get_def str_int_def str_nat.simps
        digit_char_def)
qed

text \<open>
  Claim C7. The claim allows two failures of \<open>find_meta\<close> and no other. On a stream with
  no record at all (an empty metadata file) the reader has no field names, and the test
  for the column raises a TypeError, whose message names neither the field nor the file.
\<close>

theorem find_meta_empty_file:
  "fst (find_meta 1 ex_meta (ex_world\<lparr>streams := \<lambda>n. []\<rparr>)) = Inl TypeError"
  by (simp add: find_meta_def)

section \<open>The driver\<close>








text \<open>
  Claim C1. The claim promises that the second of two requested ids, both in the table,
  is looked up in the full table. In the concrete run both ids 1 and 2 are in the table
  and the data directory is empty; the driver prints the two ordinals, completes id 1,
  and raises a TypeError in the lookup of id 2, on the handle that the lookup of id 1 has
  drained. It does not print \<open>Done.\<close>
\<close>

theorem main_second_lookup_fails:
  "fst (find_meta 2 ex_meta ex_world) =
     Inr [ [(Some ''experiment_id'', Str ''2''), (Some ''url'', Str ''ftp://h/b.fq'')] ]
   \<and> fst (main ex_runner [1] ex_meta ''/d'' ex_world) = Inr ()
   \<and> stdout (snd (main ex_runner [1] ex_meta ''/d'' ex_world)) = [''  1: 1'', ''Done.'']
   \<and> fst (main ex_runner [1, 2] ex_meta ''/d'' ex_world) = Inl TypeError
   \<and> stdout (snd (main ex_runner [1, 2] ex_meta ''/d'' ex_world)) = [''  1: 1'', ''  2: 2'']
   \<and> reg_files (snd (main ex_runner [1, 2] ex_meta ''/d'' ex_world)) =
       {''/d/raw/a.fastq.gz'', ''/d/qc/a.fa''}"
  by code_simp

section \<open>Lists without repetitions\<close>

lemma remdups_snoc: "remdups (ys @ [x]) = filter (\<lambda>y. y \<noteq> x) (remdups ys) @ [x]"
  by (induction ys) auto

lemma dedup_first_Nil [simp]: "dedup_first [] = []"
  by (simp add: dedup_first_def)

lemma dedup_first_Cons: "dedup_first (x # xs) = x # filter (\<lambda>y. y \<noteq> x) (dedup_first xs)"
  by (simp add: dedup_first_def remdups_snoc rev_filter)

lemma set_dedup_first [simp]: "set (dedup_first xs) = set xs"
  by (simp add: dedup_first_def)

lemma distinct_dedup_first [simp]: "distinct (dedup_first xs)"
  by (simp add: dedup_first_def)

lemma dedup_first_map_inj:
  "inj f \<Longrightarrow> dedup_first (map f xs) = map f (dedup_first xs)"
proof (induction xs)
  case Nil
  show ?case by simp
next
  case (Cons x xs)
  have "filter (\<lambda>y. y \<noteq> f x) (map f (dedup_first xs)) = map f (filter (\<lambda>y. y \<noteq> x) (dedup_first xs))"
    using Cons.prems by (simp add: filter_map comp_def inj_eq)
  with Cons show ?case by (simp add: dedup_first_Cons)
qed

lemma map_first_by:
  "map key (first_by key seen xs) = filter (\<lambda>k. k \<notin> seen) (dedup_first (map key xs))"
proof (induction xs arbitrary: seen)
  case Nil
  show ?case by simp
next
  case (Cons x xs)
  show ?case
  proof (cases "key x \<in> seen")
    case True
    then have "filter (\<lambda>k. k \<notin> seen) (filter (\<lambda>y. y \<noteq> key x) (dedup_first (map key xs)))
               = filter (\<lambda>k. k \<notin> seen) (dedup_first (map key xs))"
      by (auto intro: filter_cong)
    with True Cons show ?thesis by (simp add: dedup_first_Cons)
  next
    case False
    have "filter (\<lambda>k. k \<notin> insert (key x) seen) (dedup_first (map key xs))
          = filter (\<lambda>k. k \<notin> seen) (filter (\<lambda>y. y \<noteq> key x) (dedup_first (map key xs)))"
      by (auto intro: filter_cong)
    with False Cons show ?thesis by (simp add: dedup_first_Cons)
  qed
qed

section \<open>File retrieval\<close>

lemma get_files_loop_eq:
  "get_files_loop raw_dir w files (expected, todo) =
     (expected @ map (\<lambda>u. os_path_join raw_dir (os_path_basename u))
                   (first_by (\<lambda>u. os_path_join raw_dir (os_path_basename u)) (set expected) files),
      todo @ map (\<lambda>u. ''iget -f '' @ u @ '' '' @ os_path_join raw_dir (os_path_basename u))
               (filter (\<lambda>u. os_path_join raw_dir (os_path_basename u) \<notin> reg_files w)
                  (first_by (\<lambda>u. os_path_join raw_dir (os_path_basename u)) (set expected) files)))"
proof (induction files arbitrary: expected todo)
  case Nil
  show ?case by simp
next
  case (Cons u us)
  show ?case
    by (simp add: Let_def Cons.IH os_path_isfile_def)
qed

lemma os_path_join_raw:
  "os_path_join data_dir ''raw'' =
     (if data_dir = [] \<or> last data_dir = CHR ''/'' then data_dir @ ''raw'' else data_dir @ ''/raw'')"
  by (simp add: os_path_join_def)

lemma os_path_join_basename:
  assumes "raw_dir \<noteq> []" "last raw_dir \<noteq> CHR ''/''"
  shows "os_path_join raw_dir (os_path_basename u) = raw_dir @ ''/'' @ os_path_basename u"
proof -
  have "os_path_basename u = [] \<or> hd (os_path_basename u) \<noteq> CHR ''/''"
    using os_path_basename_no_slash [of u] by (cases "os_path_basename u") auto
  with assms show ?thesis by (auto simp: os_path_join_def)
qed

lemma raw_dir_shape:
  "os_path_join data_dir ''raw'' \<noteq> [] \<and> last (os_path_join data_dir ''raw'') \<noteq> CHR ''/''"
  by (simp add: os_path_join_raw)

lemma qc_dir_shape:
  "os_path_join data_dir ''qc'' \<noteq> [] \<and> last (os_path_join data_dir ''qc'') \<noteq> CHR ''/''"
  by (simp add: os_path_join_def)

lemma get_files_loop_dest:
  "get_files_loop (os_path_join data_dir ''raw'') w files ([], []) =
     (map (raw_dest data_dir) (first_by (raw_dest data_dir) {} files),
      map (\<lambda>u. ''iget -f '' @ u @ '' '' @ raw_dest data_dir u)
        (filter (\<lambda>u. raw_dest data_dir u \<notin> reg_files w) (first_by (raw_dest data_dir) {} files)))"
proof -
  have "raw_dest data_dir = (\<lambda>u. os_path_join (os_path_join data_dir ''raw'') (os_path_basename u))"
    by (rule ext) (simp add: raw_dest_def)
  then show ?thesis by (simp add: get_files_loop_eq)
qed

lemma ensure_dir_eq:
  "(if \<not> os_path_isdir w p then os_makedirs p w else (Inr (), w)) =
     (if p \<notin> directories w \<and> p \<in> reg_files w then (Inl (FileExistsError p), w)
      else (Inr (), w\<lparr>directories := insert p (directories w)\<rparr>))"
  by (simp add: os_path_isdir_def os_makedirs_def insert_absorb)

lemma get_files_batch_eq:
  "get_files_batch run files data_dir w =
     (if os_path_join data_dir ''raw'' \<notin> directories w \<and> os_path_join data_dir ''raw'' \<in> reg_files w
      then (Inl (FileExistsError (os_path_join data_dir ''raw'')), w)
      else
        let w1 = w\<lparr>directories := insert (os_path_join data_dir ''raw'') (directories w)\<rparr>;
            expected = map (raw_dest data_dir) (first_by (raw_dest data_dir) {} files);
            todo = map (\<lambda>u. ''iget -f '' @ u @ '' '' @ raw_dest data_dir u)
                     (filter (\<lambda>u. raw_dest data_dir u \<notin> reg_files w)
                        (first_by (raw_dest data_dir) {} files))
        in if todo = [] then (Inr expected, w1)
           else (case fst (run todo (reg_files w)) of
                   Some e \<Rightarrow> Inl e | None \<Rightarrow> Inr expected,
                 w1\<lparr>reg_files := snd (run todo (reg_files w)), batches := batches w @ [todo]\<rparr>))"
  unfolding get_files_batch_def Let_def ensure_dir_eq
  by (simp add: get_files_loop_dest parallelprocs_run_def Let_def split: prod.splits option.splits)

lemma raw_dest_eq: "raw_dest data_dir u = os_path_join data_dir ''raw'' @ ''/'' @ os_path_basename u"
  using raw_dir_shape [of data_dir] by (simp add: raw_dest_def os_path_join_basename)

lemma first_by_raw_dest:
  "map (raw_dest data_dir) (first_by (raw_dest data_dir) {} files) =
     dedup_first (map (raw_dest data_dir) files)"
  by (simp add: map_first_by)

lemma get_files_returns:
  assumes "get_files run files data_dir w = (Inr expected, w1)"
  shows "get_files_batch run files data_dir w = (Inr expected, w1) \<and> set expected \<subseteq> reg_files w1"
proof (cases "get_files_batch run files data_dir w")
  case (Pair r w2)
  show ?thesis
  proof (cases r)
    case (Inl e)
    with Pair assms show ?thesis by (simp add: get_files_def)
  next
    case (Inr ex)
    with Pair assms have "filter (\<lambda>f. \<not> os_path_isfile w2 f) ex = [] \<and> ex = expected \<and> w2 = w1"
      by (simp add: get_files_def Let_def split: if_splits)
    with Pair Inr show ?thesis
      by (auto simp: filter_empty_conv os_path_isfile_def)
  qed
qed

lemma get_files_batch_returns:
  assumes "get_files_batch run files data_dir w = (Inr expected, w2)"
  shows "expected = dedup_first (map (raw_dest data_dir) files)
         \<and> os_path_join data_dir ''raw'' \<in> directories w2"
  using assms unfolding get_files_batch_eq Let_def first_by_raw_dest
  by (auto split: if_splits option.splits)

text \<open>
  Claim C4. When \<open>get_files\<close> returns, the list it returns is built from the basenames
  of the urls: each basename at its first occurrence, none twice, each put behind the
  raw directory and a slash. The raw directory is \<open>os.path.join(data_dir, 'raw')\<close>, which
  is \<open>data_dir/raw\<close> for a data directory that is not empty and does not end in a slash
  (\<open>get_args\<close> makes it absolute). The same list is the list of destinations without
  its repetitions, so two urls with one basename give one path, whatever their source.
\<close>

theorem get_files_paths:
  assumes "get_files run files data_dir w = (Inr expected, w1)"
  shows "expected = map (\<lambda>b. os_path_join data_dir ''raw'' @ ''/'' @ b)
                      (dedup_first (map os_path_basename files))
         \<and> expected = dedup_first (map (raw_dest data_dir) files)
         \<and> distinct expected
         \<and> (data_dir \<noteq> [] \<and> last data_dir \<noteq> CHR ''/''
              \<longrightarrow> os_path_join data_dir ''raw'' = data_dir @ ''/raw'')"
proof -
  let ?f = "\<lambda>b. os_path_join data_dir ''raw'' @ ''/'' @ b"
  have e: "expected = dedup_first (map (raw_dest data_dir) files)"
    using get_files_returns [OF assms] get_files_batch_returns by blast
  have "raw_dest data_dir = ?f \<circ> os_path_basename"
    by (rule ext) (simp add: raw_dest_eq)
  then have "map (raw_dest data_dir) files = map ?f (map os_path_basename files)"
    by simp
  moreover have "inj ?f"
    by (simp add: inj_def)
  ultimately have "dedup_first (map (raw_dest data_dir) files) =
                     map ?f (dedup_first (map os_path_basename files))"
    by (simp only: dedup_first_map_inj)
  with e have m: "expected = map ?f (dedup_first (map os_path_basename files))"
    by simp
  from e have d: "distinct expected"
    by simp
  have r: "data_dir \<noteq> [] \<and> last data_dir \<noteq> CHR ''/''
             \<longrightarrow> os_path_join data_dir ''raw'' = data_dir @ ''/raw''"
    by (simp add: os_path_join_raw)
  from m e d r show ?thesis
    by blast
qed

text \<open>
  Four urls with two basenames, in an empty data directory \<open>/d\<close>.
\<close>

theorem get_files_paths_witness:
  "fst (get_files ex_runner [''ftp://h/a.fq'', ''ftp://other/x/a.fq'', ''b.fq.gz'', ''ftp://h/a.fq'']
          ''/d'' ex_world) = Inr [''/d/raw/a.fq'', ''/d/raw/b.fq.gz'']
   \<and> map (\<lambda>b. os_path_join ''/d'' ''raw'' @ ''/'' @ b)
        (dedup_first (map os_path_basename
           [''ftp://h/a.fq'', ''ftp://other/x/a.fq'', ''b.fq.gz'', ''ftp://h/a.fq'']))
       = [''/d/raw/a.fq'', ''/d/raw/b.fq.gz'']"
proof -
  let ?us = "[''ftp://h/a.fq'', ''ftp://other/x/a.fq'', ''b.fq.gz'', ''ftp://h/a.fq'']"
  define w1 where "w1 = snd (get_files ex_runner ?us ''/d'' ex_world)"
  have r: "fst (get_files ex_runner ?us ''/d'' ex_world) = Inr [''/d/raw/a.fq'', ''/d/raw/b.fq.gz'']"
    by code_simp
  then have g: "get_files ex_runner ?us ''/d'' ex_world = (Inr [''/d/raw/a.fq'', ''/d/raw/b.fq.gz''], w1)"
    unfolding w1_def by (metis prod.collapse)
  from get_files_paths [OF g]
  have "[''/d/raw/a.fq'', ''/d/raw/b.fq.gz''] =
          map (\<lambda>b. os_path_join ''/d'' ''raw'' @ ''/'' @ b) (dedup_first (map os_path_basename ?us))"
    by blast
  with r show ?thesis by simp
qed





section \<open>The quality-control runner\<close>

lemma run_qc_loop_eq:
  "run_qc_loop qc_dir w files (expected, todo) =
     (expected @ map (\<lambda>f. os_path_join qc_dir (qc_stem (os_path_basename f) @ ''.fa'')) files,
      todo @ map (\<lambda>f. tmpl_format (if endswith (os_path_basename f) ''.gz'' then ''gunzip -c '' @ f
                                     else ''cat '' @ f)
                        (os_path_join qc_dir (qc_stem (os_path_basename f) @ ''.fa'')))
               (filter (\<lambda>f. os_path_join qc_dir (qc_stem (os_path_basename f) @ ''.fa'') \<notin> reg_files w)
                  files))"
proof (induction files arbitrary: expected todo)
  case Nil
  show ?case by simp
next
  case (Cons f fs)
  show ?case
    by (simp add: Let_def Cons.IH os_path_isfile_def)
qed

lemma run_qc_loop_dest:
  "run_qc_loop (os_path_join data_dir ''qc'') w files ([], []) =
     (map (qc_dest data_dir) files,
      map (\<lambda>f. tmpl_format (if endswith (os_path_basename f) ''.gz'' then ''gunzip -c '' @ f
                              else ''cat '' @ f) (qc_dest data_dir f))
        (filter (\<lambda>f. qc_dest data_dir f \<notin> reg_files w) files))"
proof -
  have "qc_dest data_dir =
          (\<lambda>f. os_path_join (os_path_join data_dir ''qc'') (qc_stem (os_path_basename f) @ ''.fa''))"
    by (rule ext) (simp add: qc_dest_def)
  then show ?thesis by (simp add: run_qc_loop_eq)
qed

lemma run_qc_batch_eq:
  "run_qc_batch run files data_dir w =
     (if os_path_join data_dir ''qc'' \<notin> directories w \<and> os_path_join data_dir ''qc'' \<in> reg_files w
      then (Inl (FileExistsError (os_path_join data_dir ''qc'')), w)
      else
        let w1 = w\<lparr>directories := insert (os_path_join data_dir ''qc'') (directories w)\<rparr>;
            todo = snd (run_qc_loop (os_path_join data_dir ''qc'') w files ([], []))
        in if todo = [] then (Inr (map (qc_dest data_dir) files), w1)
           else (case fst (run todo (reg_files w)) of
                   Some e \<Rightarrow> Inl e | None \<Rightarrow> Inr (map (qc_dest data_dir) files),
                 w1\<lparr>reg_files := snd (run todo (reg_files w)), batches := batches w @ [todo]\<rparr>))"
  unfolding run_qc_batch_def Let_def ensure_dir_eq
  by (simp add: run_qc_loop_dest parallelprocs_run_def Let_def split: prod.splits option.splits)

lemma run_qc_returns:
  assumes "run_qc run files data_dir w = (Inr expected, w1)"
  shows "run_qc_batch run files data_dir w = (Inr expected, w1) \<and> set expected \<subseteq> reg_files w1"
proof (cases "run_qc_batch run files data_dir w")
  case (Pair r w2)
  show ?thesis
  proof (cases r)
    case (Inl e)
    with Pair assms show ?thesis by (simp add: run_qc_def)
  next
    case (Inr ex)
    with Pair assms have "filter (\<lambda>f. \<not> os_path_isfile w2 f) ex = [] \<and> ex = expected \<and> w2 = w1"
      by (simp add: run_qc_def Let_def split: if_splits)
    with Pair Inr show ?thesis
      by (auto simp: filter_empty_conv os_path_isfile_def)
  qed
qed

lemma run_qc_batch_returns:
  assumes "run_qc_batch run files data_dir w = (Inr expected, w2)"
  shows "expected = map (qc_dest data_dir) files"
  using assms unfolding run_qc_batch_eq Let_def
  by (auto split: if_splits option.splits)

lemma batches_run_qc_batch:
  assumes "os_path_join data_dir ''qc'' \<in> directories w \<or> os_path_join data_dir ''qc'' \<notin> reg_files w"
  shows "batches (snd (run_qc_batch run files data_dir w)) =
           batches w @ (if snd (run_qc_loop (os_path_join data_dir ''qc'') w files ([], [])) = [] then []
                        else [snd (run_qc_loop (os_path_join data_dir ''qc'') w files ([], []))])"
  using assms unfolding run_qc_batch_eq Let_def by auto

lemma snd_run_qc: "snd (run_qc run files data_dir w) = snd (run_qc_batch run files data_dir w)"
  by (cases "run_qc_batch run files data_dir w")
     (simp add: run_qc_def Let_def split: sum.splits)

lemma snd_get_files: "snd (get_files run files data_dir w) = snd (get_files_batch run files data_dir w)"
  by (cases "get_files_batch run files data_dir w")
     (simp add: get_files_def Let_def split: sum.splits)

text \<open>
  Claim C8. The loop of \<open>run_qc\<close> queues one command for each file whose qc file is not
  there, in the order of the files: \<open>gunzip -c\<close> of the file when its basename ends in
  \<open>.gz\<close> and \<open>cat\<close> of it otherwise, piped through the three filters and redirected to
  the qc file of the file. When the qc directory can be made, these commands, if there are
  any, are the one batch that \<open>run_qc\<close> hands to the runner.
\<close>

theorem run_qc_commands:
  "snd (run_qc_loop (os_path_join data_dir ''qc'') w files ([], [])) =
     map (\<lambda>file. (if endswith (os_path_basename file) ''.gz'' then ''gunzip -c '' @ file
                   else ''cat '' @ file)
                  @ '' | fastq_quality_filter -q 20 -p 80 -Q 33 | fastx_clipper -l 80 | fastx_collapser > ''
                  @ qc_dest data_dir file)
       (filter (\<lambda>file. \<not> os_path_isfile w (qc_dest data_dir file)) files)
   \<and> (os_path_join data_dir ''qc'' \<in> directories w \<or> os_path_join data_dir ''qc'' \<notin> reg_files w
      \<longrightarrow> batches (snd (run_qc run files data_dir w)) =
            batches w @ (if snd (run_qc_loop (os_path_join data_dir ''qc'') w files ([], [])) = []
                         then []
                         else [snd (run_qc_loop (os_path_join data_dir ''qc'') w files ([], []))]))"
proof -
  have "snd (run_qc_loop (os_path_join data_dir ''qc'') w files ([], [])) =
     map (\<lambda>file. (if endswith (os_path_basename file) ''.gz'' then ''gunzip -c '' @ file
                   else ''cat '' @ file)
                  @ '' | fastq_quality_filter -q 20 -p 80 -Q 33 | fastx_clipper -l 80 | fastx_collapser > ''
                  @ qc_dest data_dir file)
       (filter (\<lambda>file. \<not> os_path_isfile w (qc_dest data_dir file)) files)"
    by (simp add: run_qc_loop_dest tmpl_format_def os_path_isfile_def)
  then show ?thesis
    using batches_run_qc_batch [of data_dir w run files]
    by (simp only: snd_run_qc) blast
qed

text \<open>
  Three files, the qc file of the second being there already.
\<close>

theorem run_qc_commands_witness:
  "batches (snd (run_qc ex_runner [''/d/raw/a.fastq.gz'', ''/d/raw/b.fq'', ''/d/raw/c.txt''] ''/d''
                  (ex_world\<lparr>reg_files := {''/d/qc/b.fa''}\<rparr>))) =
     [ [''gunzip -c /d/raw/a.fastq.gz | fastq_quality_filter -q 20 -p 80 -Q 33 | fastx_clipper -l 80 | fastx_collapser > /d/qc/a.fa'',
       ''cat /d/raw/c.txt | fastq_quality_filter -q 20 -p 80 -Q 33 | fastx_clipper -l 80 | fastx_collapser > /d/qc/c.txt.fa''] ]"
proof -
  let ?w = "ex_world\<lparr>reg_files := {''/d/qc/b.fa''}\<rparr>"
  let ?fs = "[''/d/raw/a.fastq.gz'', ''/d/raw/b.fq'', ''/d/raw/c.txt'']"
  have d: "os_path_join ''/d'' ''qc'' \<in> directories ?w \<or> os_path_join ''/d'' ''qc'' \<notin> reg_files ?w"
    by (simp add: os_path_join_def ex_world_def)
  have t: "snd (run_qc_loop (os_path_join ''/d'' ''qc'') ?w ?fs ([], [])) =
     [''gunzip -c /d/raw/a.fastq.gz | fastq_quality_filter -q 20 -p 80 -Q 33 | fastx_clipper -l 80 | fastx_collapser > /d/qc/a.fa'',
      ''cat /d/raw/c.txt | fastq_quality_filter -q 20 -p 80 -Q 33 | fastx_clipper -l 80 | fastx_collapser > /d/qc/c.txt.fa'']"
    by code_simp
  have b: "batches ?w = []"
    by (simp add: ex_world_def)
  from d run_qc_commands [of "''/d''" ?w ?fs ex_runner]
  have "batches (snd (run_qc ex_runner ?fs ''/d'' ?w)) =
          batches ?w @ (if snd (run_qc_loop (os_path_join ''/d'' ''qc'') ?w ?fs ([], [])) = [] then []
                        else [snd (run_qc_loop (os_path_join ''/d'' ''qc'') ?w ?fs ([], []))])"
    by blast
  then show ?thesis
    unfolding t b by simp
qed

text \<open>
  Claim C10. When \<open>run_qc\<close> returns, its list has the qc file of every input file, one
  entry for each and in their order, repetitions included. The files \<open>a/sample.fastq\<close>
  and \<open>b/sample.fq\<close> have the same qc file, which is not there in the concrete world:
  \<open>run_qc\<close> returns that path twice and hands the runner one batch of two commands
  that both write to it.
\<close>

theorem run_qc_one_per_file:
  "(run_qc run files data_dir w = (Inr expected, w1)
      \<longrightarrow> expected = map (qc_dest data_dir) files \<and> length expected = length files)
   \<and> qc_dest ''/d'' ''a/sample.fastq'' = ''/d/qc/sample.fa''
   \<and> qc_dest ''/d'' ''b/sample.fq'' = ''/d/qc/sample.fa''
   \<and> \<not> os_path_isfile ex_world ''/d/qc/sample.fa''
   \<and> fst (run_qc ex_runner [''a/sample.fastq'', ''b/sample.fq''] ''/d'' ex_world) =
       Inr [''/d/qc/sample.fa'', ''/d/qc/sample.fa'']
   \<and> batches (snd (run_qc ex_runner [''a/sample.fastq'', ''b/sample.fq''] ''/d'' ex_world)) =
       [ [''cat a/sample.fastq | fastq_quality_filter -q 20 -p 80 -Q 33 | fastx_clipper -l 80 | fastx_collapser > /d/qc/sample.fa'',
         ''cat b/sample.fq | fastq_quality_filter -q 20 -p 80 -Q 33 | fastx_clipper -l 80 | fastx_collapser > /d/qc/sample.fa''] ]"
proof -
  have g: "run_qc run files data_dir w = (Inr expected, w1)
      \<longrightarrow> expected = map (qc_dest data_dir) files \<and> length expected = length files"
    using run_qc_returns [of run files data_dir w expected w1]
      run_qc_batch_returns [of run files data_dir w expected w1] by auto
  have a: "qc_dest ''/d'' ''a/sample.fastq'' = ''/d/qc/sample.fa''" by code_simp
  have b: "qc_dest ''/d'' ''b/sample.fq'' = ''/d/qc/sample.fa''" by code_simp
  have c: "\<not> os_path_isfile ex_world ''/d/qc/sample.fa''"
    by (simp add: os_path_isfile_def ex_world_def)
  have d: "fst (run_qc ex_runner [''a/sample.fastq'', ''b/sample.fq''] ''/d'' ex_world) =
       Inr [''/d/qc/sample.fa'', ''/d/qc/sample.fa'']" by code_simp
  have e: "batches (snd (run_qc ex_runner [''a/sample.fastq'', ''b/sample.fq''] ''/d'' ex_world)) =
       [ [''cat a/sample.fastq | fastq_quality_filter -q 20 -p 80 -Q 33 | fastx_clipper -l 80 | fastx_collapser > /d/qc/sample.fa'',
         ''cat b/sample.fq | fastq_quality_filter -q 20 -p 80 -Q 33 | fastx_clipper -l 80 | fastx_collapser > /d/qc/sample.fa''] ]"
    by code_simp
  from g a b c d e show ?thesis by blast
qed

text \<open>
  Two files with different stems.
\<close>

theorem run_qc_one_per_file_witness:
  "fst (run_qc ex_runner [''/d/raw/a.fastq.gz'', ''/d/raw/b.fq''] ''/d'' ex_world) =
     Inr [''/d/qc/a.fa'', ''/d/qc/b.fa'']
   \<and> map (qc_dest ''/d'') [''/d/raw/a.fastq.gz'', ''/d/raw/b.fq''] = [''/d/qc/a.fa'', ''/d/qc/b.fa'']"
proof -
  let ?fs = "[''/d/raw/a.fastq.gz'', ''/d/raw/b.fq'']"
  define w1 where "w1 = snd (run_qc ex_runner ?fs ''/d'' ex_world)"
  have r: "fst (run_qc ex_runner ?fs ''/d'' ex_world) = Inr [''/d/qc/a.fa'', ''/d/qc/b.fa'']"
    by code_simp
  then have g: "run_qc ex_runner ?fs ''/d'' ex_world = (Inr [''/d/qc/a.fa'', ''/d/qc/b.fa''], w1)"
    unfolding w1_def by (metis prod.collapse)
  from g run_qc_one_per_file [of ex_runner ?fs "''/d''" ex_world "[''/d/qc/a.fa'', ''/d/qc/b.fa'']" w1]
  have "[''/d/qc/a.fa'', ''/d/qc/b.fa''] = map (qc_dest ''/d'') ?fs"
    by blast
  with r show ?thesis by simp
qed

section \<open>The check after the batch\<close>

text \<open>
  Claim C6. When the directory has been made and the batch has completed (or nothing
  was queued), \<open>get_files\<close> and \<open>run_qc\<close> do the same: if an expected path is not a
  regular file they raise an exception whose message lists every such path, separated by
  commas, and otherwise they return the whole list of expected paths. An exception of the
  directory or the batch is passed on.
\<close>

theorem postcondition_check:
  "(get_files_batch run files data_dir w = (Inr expected, w2) \<longrightarrow>
      get_files run files data_dir w =
        (if list_ex (\<lambda>f. f \<notin> reg_files w2) expected
         then (Inl (Exception (''Failed to download ''
                                @ str_join '', '' (filter (\<lambda>f. f \<notin> reg_files w2) expected))), w2)
         else (Inr expected, w2)))
   \<and> (run_qc_batch run files data_dir w = (Inr expected, w2) \<longrightarrow>
      run_qc run files data_dir w =
        (if list_ex (\<lambda>f. f \<notin> reg_files w2) expected
         then (Inl (Exception (''Failed to download ''
                                @ str_join '', '' (filter (\<lambda>f. f \<notin> reg_files w2) expected))), w2)
         else (Inr expected, w2)))
   \<and> (get_files_batch run files data_dir w = (Inl e, w2) \<longrightarrow>
        get_files run files data_dir w = (Inl e, w2))
   \<and> (run_qc_batch run files data_dir w = (Inl e, w2) \<longrightarrow>
        run_qc run files data_dir w = (Inl e, w2))"
  by (simp add: get_files_def run_qc_def Let_def os_path_isfile_def list_ex_iff filter_empty_conv)

text \<open>
  With a runner that creates nothing, two of three raw files are missing and both are
  listed; with a runner that succeeds, \<open>run_qc\<close> returns its two qc files.
\<close>

theorem postcondition_check_witness:
  "fst (get_files idle_runner [''ftp://h/a.fq'', ''ftp://h/b.fq'', ''ftp://h/c.fq''] ''/d''
          (ex_world\<lparr>reg_files := {''/d/raw/b.fq''}\<rparr>)) =
     Inl (Exception ''Failed to download /d/raw/a.fq, /d/raw/c.fq'')
   \<and> fst (run_qc ex_runner [''/d/raw/a.fq'', ''/d/raw/b.fq.gz''] ''/d'' ex_world) =
       Inr [''/d/qc/a.fa'', ''/d/qc/b.fa'']"
proof -
  let ?w = "ex_world\<lparr>reg_files := {''/d/raw/b.fq''}\<rparr>"
  let ?us = "[''ftp://h/a.fq'', ''ftp://h/b.fq'', ''ftp://h/c.fq'']"
  let ?fs = "[''/d/raw/a.fq'', ''/d/raw/b.fq.gz'']"
  define wg where "wg = snd (get_files_batch idle_runner ?us ''/d'' ?w)"
  define wq where "wq = snd (run_qc_batch ex_runner ?fs ''/d'' ex_world)"
  have "fst (get_files_batch idle_runner ?us ''/d'' ?w) =
          Inr [''/d/raw/a.fq'', ''/d/raw/b.fq'', ''/d/raw/c.fq'']"
    by code_simp
  then have g: "get_files_batch idle_runner ?us ''/d'' ?w =
      (Inr [''/d/raw/a.fq'', ''/d/raw/b.fq'', ''/d/raw/c.fq''], wg)"
    unfolding wg_def by (metis prod.collapse)
  have gf: "reg_files wg = {''/d/raw/b.fq''}"
    unfolding wg_def by code_simp
  have "fst (run_qc_batch ex_runner ?fs ''/d'' ex_world) = Inr [''/d/qc/a.fa'', ''/d/qc/b.fa'']"
    by code_simp
  then have q: "run_qc_batch ex_runner ?fs ''/d'' ex_world = (Inr [''/d/qc/a.fa'', ''/d/qc/b.fa''], wq)"
    unfolding wq_def by (metis prod.collapse)
  have qf: "reg_files wq = {''/d/qc/a.fa'', ''/d/qc/b.fa''}"
    unfolding wq_def by code_simp
  have "get_files idle_runner ?us ''/d'' ?w =
          (Inl (Exception (''Failed to download '' @ str_join '', ''
                  (filter (\<lambda>f. f \<notin> reg_files wg) [''/d/raw/a.fq'', ''/d/raw/b.fq'', ''/d/raw/c.fq'']))), wg)"
    using g gf
      postcondition_check [of idle_runner ?us "''/d''" ?w
        "[''/d/raw/a.fq'', ''/d/raw/b.fq'', ''/d/raw/c.fq'']" wg]
    by simp
  then have 1: "fst (get_files idle_runner ?us ''/d'' ?w) =
             Inl (Exception ''Failed to download /d/raw/a.fq, /d/raw/c.fq'')"
    by (simp add: gf)
  have "run_qc ex_runner ?fs ''/d'' ex_world = (Inr [''/d/qc/a.fa'', ''/d/qc/b.fa''], wq)"
    using q qf
      postcondition_check [of ex_runner ?fs "''/d''" ex_world "[''/d/qc/a.fa'', ''/d/qc/b.fa'']" wq]
    by simp
  then have 2: "fst (run_qc ex_runner ?fs ''/d'' ex_world) = Inr [''/d/qc/a.fa'', ''/d/qc/b.fa'']"
    by simp
  from 1 2 show ?thesis by simp
qed

section \<open>The stem of the qc file\<close>

text \<open>What the regular expression matches, and where.\<close>

lemma re_tail_iff:
  "re_tail s = (s \<in> set spec_suffixes \<or> (\<exists>t \<in> set spec_suffixes. s = t @ [newline]))"
  by (auto simp: re_tail_def spec_suffixes_def)

lemma re_tail_no_newline:
  "newline \<notin> set s \<Longrightarrow> re_tail s = (s \<in> set spec_suffixes)"
  by (auto simp: re_tail_iff)

lemma re_match_from_Some:
  "re_match_from n s = Some g \<Longrightarrow>
     \<exists>k. 0 < k \<and> k \<le> n \<and> g = take k s \<and> re_group (take k s) \<and> re_tail (drop k s)"
proof (induction n)
  case 0
  then show ?case by simp
next
  case (Suc n)
  show ?case
  proof (cases "re_group (take (Suc n) s) \<and> re_tail (drop (Suc n) s)")
    case True
    with Suc.prems have "g = take (Suc n) s" by simp
    with True show ?thesis by blast
  next
    case False
    with Suc.prems have "re_match_from n s = Some g" by auto
    from Suc.IH [OF this] obtain k where
      "0 < k" "k \<le> n" "g = take k s" "re_group (take k s)" "re_tail (drop k s)"
      by blast
    then have "0 < k \<and> k \<le> Suc n \<and> g = take k s \<and> re_group (take k s) \<and> re_tail (drop k s)"
      by simp
    then show ?thesis ..
  qed
qed

lemma re_match_from_None:
  "re_match_from n s = None \<Longrightarrow> 0 < k \<Longrightarrow> k \<le> n \<Longrightarrow>
     \<not> (re_group (take k s) \<and> re_tail (drop k s))"
proof (induction n)
  case 0
  then show ?case by simp
next
  case (Suc n)
  then show ?case
    by (cases "k = Suc n") (auto split: if_splits)
qed

lemma endswith_drop: "k \<le> length s \<Longrightarrow> endswith s (drop k s)"
  by (simp add: endswith_def)

lemma endswith_trans_drop:
  "j \<le> k \<Longrightarrow> k \<le> length s \<Longrightarrow> endswith (drop j s) (drop k s)"
proof -
  assume a: "j \<le> k" "k \<le> length s"
  have "drop k s = drop (k - j) (drop j s)" using a by simp
  moreover have "k - j \<le> length (drop j s)" using a by simp
  ultimately show ?thesis using endswith_drop by metis
qed

lemma spec_suffixes_no_suffix:
  "t1 \<in> set spec_suffixes \<Longrightarrow> t2 \<in> set spec_suffixes \<Longrightarrow> endswith t1 t2 \<Longrightarrow> t1 = t2"
  by (auto simp: spec_suffixes_def endswith_def)

lemma stem_cut_unique:
  assumes "stem_cut b j" "stem_cut b k"
  shows "j = k"
proof -
  have le: "j = k" if "stem_cut b j" "stem_cut b k" "j \<le> k" for j k
  proof -
    from that have "endswith (drop j b) (drop k b)"
      by (simp add: stem_cut_def endswith_trans_drop)
    with that have "drop j b = drop k b"
      by (auto simp: stem_cut_def dest: spec_suffixes_no_suffix)
    then have "length b - j = length b - k"
      by (metis length_drop)
    moreover from that have "j \<le> length b" "k \<le> length b"
      by (simp_all add: stem_cut_def)
    ultimately show ?thesis
      by arith
  qed
  show ?thesis
    using le [of j k] le [of k j] assms by (cases "j \<le> k") auto
qed

lemma stem_cut_of_match:
  assumes "newline \<notin> set b" "0 < k" "k \<le> length b" "re_tail (drop k b)"
  shows "stem_cut b k"
proof -
  from assms(1) have "newline \<notin> set (drop k b)"
    by (meson in_set_dropD)
  with assms show ?thesis
    by (simp add: stem_cut_def re_tail_no_newline)
qed

lemma match_of_stem_cut:
  assumes "newline \<notin> set b" "stem_cut b k"
  shows "re_group (take k b) \<and> re_tail (drop k b)"
proof -
  from assms(2) have "take k b \<noteq> []"
    by (auto simp: stem_cut_def)
  moreover from assms(1) have "newline \<notin> set (take k b)"
    by (meson in_set_takeD)
  moreover from assms(2) have "re_tail (drop k b)"
    by (simp add: stem_cut_def re_tail_iff)
  ultimately show ?thesis
    by (simp add: re_group_def)
qed

lemma spec_stem_cut:
  assumes "stem_cut b k"
  shows "spec_stem b = take k b"
proof -
  let ?P = "\<lambda>suf. endswith b suf \<and> length suf < length b"
  from assms have "drop k b \<in> set spec_suffixes" "?P (drop k b)"
    by (auto simp: stem_cut_def endswith_drop)
  then have "filter ?P spec_suffixes \<noteq> []"
    by (auto simp: filter_empty_conv)
  then obtain suf sufs where f: "filter ?P spec_suffixes = suf # sufs"
    by (cases "filter ?P spec_suffixes") auto
  then have "suf \<in> set (filter ?P spec_suffixes)"
    by simp
  then have s: "suf \<in> set spec_suffixes" "endswith b suf" "length suf < length b"
    by auto
  then have "stem_cut b (length b - length suf)"
    by (simp add: stem_cut_def endswith_def)
  with assms have "length b - length suf = k"
    by (rule stem_cut_unique [rotated])
  with f show ?thesis
    by (simp add: spec_stem_def)
qed

lemma spec_stem_no_cut:
  assumes "\<forall>k. \<not> stem_cut b k"
  shows "spec_stem b = b"
proof -
  let ?P = "\<lambda>suf. endswith b suf \<and> length suf < length b"
  have "filter ?P spec_suffixes = []"
  proof (rule ccontr)
    assume "filter ?P spec_suffixes \<noteq> []"
    then obtain suf where "suf \<in> set spec_suffixes" "endswith b suf" "length suf < length b"
      by (auto simp: filter_empty_conv)
    then have "stem_cut b (length b - length suf)"
      by (simp add: stem_cut_def endswith_def)
    with assms show False by blast
  qed
  then show ?thesis
    by (simp add: spec_stem_def)
qed

lemma qc_stem_spec_stem:
  assumes "newline \<notin> set b"
  shows "qc_stem b = spec_stem b"
proof (cases "re_match_group1 b")
  case None
  have "\<not> stem_cut b k" for k
  proof
    assume c: "stem_cut b k"
    then have "0 < k" "k \<le> length b"
      by (simp_all add: stem_cut_def)
    with None have "\<not> (re_group (take k b) \<and> re_tail (drop k b))"
      unfolding re_match_group1_def by (rule re_match_from_None)
    with match_of_stem_cut [OF assms c] show False by blast
  qed
  then have "spec_stem b = b"
    by (simp add: spec_stem_no_cut)
  with None show ?thesis
    by (simp add: qc_stem_def)
next
  case (Some g)
  then obtain k where k: "0 < k" "k \<le> length b" "g = take k b" "re_tail (drop k b)"
    unfolding re_match_group1_def by (blast dest: re_match_from_Some)
  then have "stem_cut b k"
    using assms by (simp add: stem_cut_of_match)
  then have "spec_stem b = take k b"
    by (rule spec_stem_cut)
  with Some k show ?thesis
    by (simp add: qc_stem_def)
qed

lemma qc_stem_prefix: "\<exists>k. qc_stem b = take k b"
proof (cases "re_match_group1 b")
  case None
  then have "qc_stem b = take (length b) b"
    by (simp add: qc_stem_def)
  then show ?thesis ..
next
  case (Some g)
  then obtain k where "g = take k b"
    unfolding re_match_group1_def by (blast dest: re_match_from_Some)
  with Some have "qc_stem b = take k b"
    by (simp add: qc_stem_def)
  then show ?thesis ..
qed

lemma qc_dest_eq:
  "qc_dest data_dir f =
     os_path_join data_dir ''qc'' @ ''/'' @ qc_stem (os_path_basename f) @ ''.fa''"
proof -
  obtain k where k: "qc_stem (os_path_basename f) = take k (os_path_basename f)"
    using qc_stem_prefix by blast
  have "CHR ''/'' \<notin> set (take k (os_path_basename f))"
    using os_path_basename_no_slash [of f] by (meson in_set_takeD)
  with k have n: "CHR ''/'' \<notin> set (qc_stem (os_path_basename f))"
    by simp
  have "hd (qc_stem (os_path_basename f) @ ''.fa'') \<noteq> CHR ''/''"
  proof (cases "qc_stem (os_path_basename f)")
    case Nil
    then show ?thesis by simp
  next
    case (Cons c cs)
    with n have "c \<noteq> CHR ''/''" by auto
    with Cons show ?thesis by simp
  qed
  with qc_dir_shape [of data_dir] show ?thesis
    by (simp add: qc_dest_def os_path_join_def [of "os_path_join data_dir ''qc''"])
qed

text \<open>
  The claim C3 as it is stated, for every filename, fails on a basename with a newline
  in it. In the regular expression \<open>.\<close> is a character other than a newline and \<open>$\<close> is
  also the place before a newline that ends the string. So the basename \<open>a\<newline>b.fq\<close>
  (the newline between \<open>a\<close> and \<open>b\<close>) has the suffix \<open>.fq\<close> after one or more
  characters and is yet used as it is, and the basename \<open>x.fq\<newline>\<close> ends in a newline,
  not in the pattern, and yet loses \<open>.fq\<close> and the newline.
\<close>

theorem qc_stem_newline_counterexample:
  "qc_stem (''a'' @ [newline] @ ''b.fq'') = ''a'' @ [newline] @ ''b.fq''
   \<and> spec_stem (''a'' @ [newline] @ ''b.fq'') = ''a'' @ [newline] @ ''b''
   \<and> qc_stem (''a'' @ [newline] @ ''b.fq'') \<noteq> spec_stem (''a'' @ [newline] @ ''b.fq'')
   \<and> qc_stem (''x.fq'' @ [newline]) = ''x''
   \<and> spec_stem (''x.fq'' @ [newline]) = ''x.fq'' @ [newline]
   \<and> qc_dest ''/d'' (''/d/raw/a'' @ [newline] @ ''b.fq'') = ''/d/qc/a'' @ [newline] @ ''b.fq.fa''"
  by code_simp

text \<open>
  Claim C3, amended: for files whose basename has no newline in it. The stem that
  \<open>run_qc\<close> takes is the stem of the specification; the expected paths of the loop, and
  the list \<open>run_qc\<close> returns when it returns, are the qc directory, a slash, the stem and
  \<open>.fa\<close>, one for each file. The qc directory is \<open>os.path.join(data_dir, 'qc')\<close>, which is
  \<open>data_dir/qc\<close> for a data directory that is not empty and does not end in a slash.
  The three examples of the claim are as it says.
\<close>

theorem run_qc_stem:
  assumes "list_all (\<lambda>f. newline \<notin> set (os_path_basename f)) files"
  shows "list_all (\<lambda>f. qc_stem (os_path_basename f) = spec_stem (os_path_basename f)) files
    \<and> fst (run_qc_loop (os_path_join data_dir ''qc'') w files ([], [])) =
        map (\<lambda>f. os_path_join data_dir ''qc'' @ ''/'' @ spec_stem (os_path_basename f) @ ''.fa'') files
    \<and> (run_qc run files data_dir w = (Inr expected, w1) \<longrightarrow>
        expected =
          map (\<lambda>f. os_path_join data_dir ''qc'' @ ''/'' @ spec_stem (os_path_basename f) @ ''.fa'') files)
    \<and> (data_dir \<noteq> [] \<and> last data_dir \<noteq> CHR ''/''
         \<longrightarrow> os_path_join data_dir ''qc'' = data_dir @ ''/qc'')
    \<and> qc_stem ''sample.fastq.gz'' = ''sample''
    \<and> qc_stem ''sample.fq'' = ''sample''
    \<and> qc_stem ''weird.name.txt'' = ''weird.name.txt''
    \<and> qc_dest ''/d'' ''/d/raw/weird.name.txt'' = ''/d/qc/weird.name.txt.fa''"
proof -
  let ?p = "\<lambda>f. os_path_join data_dir ''qc'' @ ''/'' @ spec_stem (os_path_basename f) @ ''.fa''"
  from assms have s: "list_all (\<lambda>f. qc_stem (os_path_basename f) = spec_stem (os_path_basename f)) files"
    by (simp add: list_all_iff qc_stem_spec_stem)
  then have m: "map (qc_dest data_dir) files = map ?p files"
    by (simp add: list_all_iff qc_dest_eq)
  then have l: "fst (run_qc_loop (os_path_join data_dir ''qc'') w files ([], [])) = map ?p files"
    by (simp add: run_qc_loop_dest)
  have r: "run_qc run files data_dir w = (Inr expected, w1) \<longrightarrow> expected = map ?p files"
    using run_qc_returns [of run files data_dir w expected w1]
      run_qc_batch_returns [of run files data_dir w expected w1] m by auto
  have d: "data_dir \<noteq> [] \<and> last data_dir \<noteq> CHR ''/''
             \<longrightarrow> os_path_join data_dir ''qc'' = data_dir @ ''/qc''"
    by (simp add: os_path_join_def)
  have e1: "qc_stem ''sample.fastq.gz'' = ''sample''" by code_simp
  have e2: "qc_stem ''sample.fq'' = ''sample''" by code_simp
  have e3: "qc_stem ''weird.name.txt'' = ''weird.name.txt''" by code_simp
  have e4: "qc_dest ''/d'' ''/d/raw/weird.name.txt'' = ''/d/qc/weird.name.txt.fa''" by code_simp
  from s l r d e1 e2 e3 e4 show ?thesis by blast
qed

text \<open>
  Three files under \<open>/d/raw\<close>.
\<close>

theorem run_qc_stem_witness:
  "fst (run_qc ex_runner [''/d/raw/sample.fastq.gz'', ''/d/raw/other.fq'', ''/d/raw/weird.name.txt'']
          ''/d'' ex_world) =
     Inr [''/d/qc/sample.fa'', ''/d/qc/other.fa'', ''/d/qc/weird.name.txt.fa'']
   \<and> map (\<lambda>f. os_path_join ''/d'' ''qc'' @ ''/'' @ spec_stem (os_path_basename f) @ ''.fa'')
        [''/d/raw/sample.fastq.gz'', ''/d/raw/other.fq'', ''/d/raw/weird.name.txt''] =
       [''/d/qc/sample.fa'', ''/d/qc/other.fa'', ''/d/qc/weird.name.txt.fa'']"
proof -
  let ?fs = "[''/d/raw/sample.fastq.gz'', ''/d/raw/other.fq'', ''/d/raw/weird.name.txt'']"
  let ?ex = "[''/d/qc/sample.fa'', ''/d/qc/other.fa'', ''/d/qc/weird.name.txt.fa'']"
  define w1 where "w1 = snd (run_qc ex_runner ?fs ''/d'' ex_world)"
  have h: "list_all (\<lambda>f. newline \<notin> set (os_path_basename f)) ?fs"
    by (simp add: os_path_basename_def newline_def)
  have r: "fst (run_qc ex_runner ?fs ''/d'' ex_world) = Inr ?ex"
    by code_simp
  then have g: "run_qc ex_runner ?fs ''/d'' ex_world = (Inr ?ex, w1)"
    unfolding w1_def by (metis prod.collapse)
  from g run_qc_stem [OF h, of "''/d''" ex_world ex_runner ?ex w1]
  have "?ex = map (\<lambda>f. os_path_join ''/d'' ''qc'' @ ''/'' @ spec_stem (os_path_basename f) @ ''.fa'') ?fs"
    by blast
  with r show ?thesis by simp
qed

end
